theory Spec2Isabelle
  imports Complex_Main "HOL-Library.Word" "HOL-Library.Signed_Division"
    "HOL-Library.Sublist" "HOL-Library.Multiset"
begin

section \<open>Machine integers, pointers and system calls\<close>

text \<open>
  A C \<^verbatim>\<open>int\<close> is a 32-bit two's complement value: \<open>+\<close>, \<open>-\<close> and \<open>*\<close> wrap,
  comparisons are the signed ones (\<open>\<le>s\<close>, \<open><s\<close>), and \<open>sint\<close> reads the value.
  The C operator \<^verbatim>\<open>/\<close> truncates towards zero.
\<close>

type_synonym c_int = "32 word"

definition c_div :: "c_int \<Rightarrow> c_int \<Rightarrow> c_int" where
  "c_div a b = word_of_int (sint a sdiv sint b)"

text \<open>A pointer is an address or \<^verbatim>\<open>NULL\<close> (\<open>None\<close>).\<close>

type_synonym ptr = "nat option"

text \<open>
  What can keep a call from returning: it reads through \<^verbatim>\<open>NULL\<close>, it reads an address
  that holds no object, or its \<^verbatim>\<open>sem_wait\<close> finds the semaphore at 0 and waits.
\<close>

datatype fault = Null_dereference | Dangling_pointer | Blocked

text \<open>The calls a worker makes that other threads can observe, in program order.\<close>

datatype syscall = Sem_wait nat | Sem_post nat | Usleep c_int

section \<open>Data model\<close>

text \<open>
  Modelled from the spec: the header \<^verbatim>\<open>defs.h\<close> with the status codes and the rate
  enumeration is missing; the code only compares these constants for equality.
\<close>

datatype status_code = STATUS_OK | STATUS_EMPTY | STATUS_INSUFFICIENT | STATUS_CAPACITY

datatype system_status = STANDARD | SLOW | FAST | TERMINATE

text \<open>
  Modelled from the spec: the struct declarations of \<^verbatim>\<open>defs.h\<close> are missing; the
  fields are the ones the source files read and write. \<open>resource_mutex\<close> is the value of
  the POSIX semaphore of the resource (1 after \<^verbatim>\<open>sem_init\<close>: free).
\<close>

record Resource =
  name :: string
  amount :: c_int
  max_capacity :: c_int
  resource_mutex :: nat

record ResourceAmount =
  resource :: ptr
  amount :: c_int

record System =
  name :: string
  consumed :: ResourceAmount
  produced :: ResourceAmount
  processing_time :: c_int
  status :: system_status
  amount_stored :: c_int
  event_queue :: ptr

text \<open>
  The part of the process a worker touches: the resources, by address, and the
  system calls made so far.
\<close>

record world =
  resources :: "nat \<rightharpoonup> Resource"
  trace :: "syscall list"

section \<open>Semaphores of resources\<close>

text \<open>
  \<^verbatim>\<open>sem_wait(&r->resource_mutex)\<close>: the address is computed from \<open>r\<close> and then read, so
  a \<^verbatim>\<open>NULL\<close> resource faults here; a semaphore at 0 makes the caller wait.
\<close>

definition sem_wait :: "ptr \<Rightarrow> world \<Rightarrow> fault + world" where
  "sem_wait r w =
     (case r of
        None \<Rightarrow> Inl Null_dereference
      | Some p \<Rightarrow>
          (case resources w p of
             None \<Rightarrow> Inl Dangling_pointer
           | Some res \<Rightarrow>
               if resource_mutex res = 0 then Inl Blocked
               else Inr (w\<lparr>resources := (resources w)(p \<mapsto> res\<lparr>resource_mutex := resource_mutex res - 1\<rparr>),
                           trace := trace w @ [Sem_wait p]\<rparr>)))"

definition sem_post :: "ptr \<Rightarrow> world \<Rightarrow> fault + world" where
  "sem_post r w =
     (case r of
        None \<Rightarrow> Inl Null_dereference
      | Some p \<Rightarrow>
          (case resources w p of
             None \<Rightarrow> Inl Dangling_pointer
           | Some res \<Rightarrow>
               Inr (w\<lparr>resources := (resources w)(p \<mapsto> res\<lparr>resource_mutex := resource_mutex res + 1\<rparr>),
                       trace := trace w @ [Sem_post p]\<rparr>)))"

section \<open>The worker: \<^verbatim>\<open>system.c\<close>\<close>

text \<open>The local \<^verbatim>\<open>adjusted_processing_time\<close> of \<^verbatim>\<open>system_simulate_process_time\<close>.\<close>

definition adjusted_processing_time :: "System \<Rightarrow> c_int" where
  "adjusted_processing_time system =
     (case status system of
        SLOW \<Rightarrow> processing_time system * 2
      | FAST \<Rightarrow> c_div (processing_time system) 2
      | _ \<Rightarrow> processing_time system)"

definition system_simulate_process_time :: "System \<Rightarrow> world \<Rightarrow> world" where
  "system_simulate_process_time system w =
     w\<lparr>trace := trace w @ [Usleep (adjusted_processing_time system * 1000)]\<rparr>"

text \<open>
  \<^verbatim>\<open>system_convert\<close>: the semaphore is taken before the \<^verbatim>\<open>NULL\<close> test, the processing
  delay is slept before the semaphore is given back.
\<close>

definition system_convert :: "System \<Rightarrow> world \<Rightarrow> fault + (status_code \<times> System \<times> world)" where
  "system_convert system w =
     (let consumed_resource = ResourceAmount.resource (consumed system);
          amount_consumed = ResourceAmount.amount (consumed system)
      in case sem_wait consumed_resource w of
           Inl f \<Rightarrow> Inl f
         | Inr w1 \<Rightarrow>
             (case (case consumed_resource of
                      None \<Rightarrow> Inr (STATUS_OK, w1)
                    | Some p \<Rightarrow>
                        (case resources w1 p of
                           None \<Rightarrow> Inl Dangling_pointer
                         | Some res \<Rightarrow>
                             if amount_consumed \<le>s Resource.amount res
                             then Inr (STATUS_OK,
                                       w1\<lparr>resources := (resources w1)
                                            (p \<mapsto> res\<lparr>Resource.amount := Resource.amount res - amount_consumed\<rparr>)\<rparr>)
                             else Inr (if Resource.amount res = 0 then STATUS_EMPTY else STATUS_INSUFFICIENT,
                                       w1))) of
                Inl f \<Rightarrow> Inl f
              | Inr (st, w2) \<Rightarrow>
                  (let (system', w3) =
                         (if st = STATUS_OK
                          then (if ResourceAmount.resource (produced system) \<noteq> None
                                then system\<lparr>amount_stored :=
                                       amount_stored system + ResourceAmount.amount (produced system)\<rparr>
                                else system\<lparr>amount_stored := 0\<rparr>,
                                system_simulate_process_time system w2)
                          else (system, w2))
                   in case sem_post consumed_resource w3 of
                        Inl f \<Rightarrow> Inl f
                      | Inr w4 \<Rightarrow> Inr (st, system', w4))))"

text \<open>
  \<^verbatim>\<open>system_store_resources\<close>: the two early \<^verbatim>\<open>return\<close>s (nothing to store, and
  \<^verbatim>\<open>STATUS_CAPACITY\<close>) leave before \<^verbatim>\<open>sem_post\<close>.
\<close>

definition system_store_resources :: "System \<Rightarrow> world \<Rightarrow> fault + (status_code \<times> System \<times> world)" where
  "system_store_resources system w =
     (let produced_resource = ResourceAmount.resource (produced system)
      in case sem_wait produced_resource w of
           Inl f \<Rightarrow> Inl f
         | Inr w1 \<Rightarrow>
             if produced_resource = None \<or> amount_stored system = 0
             then Inr (STATUS_OK, system\<lparr>amount_stored := 0\<rparr>, w1)
             else
               (case produced_resource of
                  None \<Rightarrow> Inl Null_dereference
                | Some p \<Rightarrow>
                    (case resources w1 p of
                       None \<Rightarrow> Inl Dangling_pointer
                     | Some res \<Rightarrow>
                         (let amount_to_store = amount_stored system;
                              available_space = max_capacity res - Resource.amount res;
                              (system', w2) =
                                (if amount_to_store \<le>s available_space
                                 then (system\<lparr>amount_stored := 0\<rparr>,
                                       w1\<lparr>resources := (resources w1)
                                            (p \<mapsto> res\<lparr>Resource.amount := Resource.amount res + amount_to_store\<rparr>)\<rparr>)
                                 else if 0 <s available_space
                                 then (system\<lparr>amount_stored := amount_to_store - available_space\<rparr>,
                                       w1\<lparr>resources := (resources w1)
                                            (p \<mapsto> res\<lparr>Resource.amount := Resource.amount res + available_space\<rparr>)\<rparr>)
                                 else (system, w1))
                          in if amount_stored system' \<noteq> 0
                             then Inr (STATUS_CAPACITY, system', w2)
                             else (case sem_post produced_resource w2 of
                                     Inl f \<Rightarrow> Inl f
                                   | Inr w3 \<Rightarrow> Inr (STATUS_OK, system', w3))))))"

section \<open>Events and the event queue: \<^verbatim>\<open>event.c\<close>\<close>

text \<open>
  Modelled from the spec: the declarations of \<^verbatim>\<open>Event\<close>, \<^verbatim>\<open>EventNode\<close> and
  \<^verbatim>\<open>EventQueue\<close> are in the missing \<^verbatim>\<open>defs.h\<close>. The chain of nodes from \<open>head\<close>
  is the list of their events (\<^verbatim>\<open>NULL\<close> is the empty list); the field \<^verbatim>\<open>size\<close> is
  \<open>queue_size\<close>; \<open>eventQueue_mutex\<close> is the value of the semaphore of the queue.
\<close>

record Event =
  system :: ptr
  resource :: ptr
  status :: status_code
  priority :: c_int
  amount :: c_int

record EventQueue =
  head :: "Event list"
  queue_size :: c_int
  eventQueue_mutex :: nat

definition event_init :: "Event \<Rightarrow> ptr \<Rightarrow> ptr \<Rightarrow> status_code \<Rightarrow> c_int \<Rightarrow> c_int \<Rightarrow> Event" where
  "event_init event sys res st prio amt =
     event\<lparr>system := sys, resource := res, status := st, priority := prio, amount := amt\<rparr>"

text \<open>
  \<^verbatim>\<open>event_queue_init\<close>, on a queue that is not \<^verbatim>\<open>NULL\<close>, writes \<open>head\<close> and the
  semaphore (\<^verbatim>\<open>sem_init\<close> with value 1), and no other field.
\<close>

definition event_queue_init :: "EventQueue \<Rightarrow> EventQueue" where
  "event_queue_init queue = queue\<lparr>head := [], eventQueue_mutex := 1\<rparr>"

text \<open>
  The loop of \<^verbatim>\<open>event_queue_push\<close>, on the chain \<^verbatim>\<open>curr->next\<close>: it steps over the nodes
  whose priority is at least the new one and links the new node before the rest.
\<close>

fun insert_after :: "Event \<Rightarrow> Event list \<Rightarrow> Event list" where
  "insert_after event [] = [event]"
| "insert_after event (n # rest) =
     (if priority event \<le>s priority n then n # insert_after event rest
      else event # n # rest)"

text \<open>
  \<open>malloc_ok\<close> says whether \<^verbatim>\<open>malloc\<close> returned a node; \<open>Inl Blocked\<close> is a
  \<^verbatim>\<open>sem_wait\<close> that finds the semaphore at 0.
\<close>

definition event_queue_push :: "bool \<Rightarrow> EventQueue \<Rightarrow> Event \<Rightarrow> fault + EventQueue" where
  "event_queue_push malloc_ok queue event =
     (if eventQueue_mutex queue = 0 then Inl Blocked
      else
        (let q1 = queue\<lparr>eventQueue_mutex := eventQueue_mutex queue - 1\<rparr>
         in if \<not> malloc_ok
            then Inr (q1\<lparr>eventQueue_mutex := eventQueue_mutex q1 + 1\<rparr>)
            else
              (let q2 = (case head q1 of
                           [] \<Rightarrow> q1\<lparr>head := [event]\<rparr>
                         | h # rest \<Rightarrow>
                             if priority h <s priority event
                             then q1\<lparr>head := event # h # rest\<rparr>
                             else q1\<lparr>head := h # insert_after event rest\<rparr>);
                   q3 = q2\<lparr>queue_size := queue_size q2 + 1\<rparr>
               in Inr (q3\<lparr>eventQueue_mutex := eventQueue_mutex q3 + 1\<rparr>))))"

text \<open>
  \<^verbatim>\<open>event_queue_pop\<close> returns its \<^verbatim>\<open>int\<close>, the queue and the out-parameter, which it
  writes only when the queue is not empty.
\<close>

definition event_queue_pop :: "EventQueue \<Rightarrow> Event \<Rightarrow> fault + (c_int \<times> EventQueue \<times> Event)" where
  "event_queue_pop queue event =
     (if eventQueue_mutex queue = 0 then Inl Blocked
      else
        (let q1 = queue\<lparr>eventQueue_mutex := eventQueue_mutex queue - 1\<rparr>
         in case head q1 of
              [] \<Rightarrow> Inr (0, q1\<lparr>eventQueue_mutex := eventQueue_mutex q1 + 1\<rparr>, event)
            | h # rest \<Rightarrow>
                (let q2 = q1\<lparr>head := rest\<rparr>;
                     q3 = q2\<lparr>queue_size := queue_size q2 - 1\<rparr>
                 in Inr (1, q3\<lparr>eventQueue_mutex := eventQueue_mutex q3 + 1\<rparr>, h))))"

subsection \<open>Sequences of queue operations\<close>

text \<open>
  A push, with what \<^verbatim>\<open>malloc\<close> does in it (\<open>True\<close>: it returns a node), or a pop.
  \<open>run_ops\<close> performs the operations in order on one queue and one out-parameter
  and returns the events that the pops with a non-zero result delivered, in order,
  and the final queue.
\<close>

datatype queue_op = Push bool Event | Pop

fun run_ops :: "queue_op list \<Rightarrow> EventQueue \<Rightarrow> Event \<Rightarrow> fault + (Event list \<times> EventQueue)" where
  "run_ops [] queue event = Inr ([], queue)"
| "run_ops (Push malloc_ok e # ops) queue event =
     (case event_queue_push malloc_ok queue e of
        Inl f \<Rightarrow> Inl f
      | Inr q' \<Rightarrow> run_ops ops q' event)"
| "run_ops (Pop # ops) queue event =
     (case event_queue_pop queue event of
        Inl f \<Rightarrow> Inl f
      | Inr (ret, q', event') \<Rightarrow>
          (case run_ops ops q' event' of
             Inl f \<Rightarrow> Inl f
           | Inr (out, q'') \<Rightarrow> Inr (if ret \<noteq> 0 then event' # out else out, q'')))"

text \<open>Events in the order of the queue: priorities, read as signed, never increase.\<close>

abbreviation descending :: "Event list \<Rightarrow> bool" where
  "descending xs \<equiv> sorted_wrt (\<lambda>a b. sint (priority b) \<le> sint (priority a)) xs"

text \<open>
  The events a sequence pushes with a node allocated, in order, and the number of
  its pops; \<open>allocated\<close> gives the events of a list of pushes that get a node.
\<close>

fun pushed :: "queue_op list \<Rightarrow> Event list" where
  "pushed [] = []"
| "pushed (Push malloc_ok e # ops) = (if malloc_ok then e # pushed ops else pushed ops)"
| "pushed (Pop # ops) = pushed ops"

fun pops :: "queue_op list \<Rightarrow> nat" where
  "pops [] = 0"
| "pops (Push malloc_ok e # ops) = pops ops"
| "pops (Pop # ops) = Suc (pops ops)"

definition allocated :: "(bool \<times> Event) list \<Rightarrow> Event list" where
  "allocated bes = map snd (filter fst bes)"

text \<open>
  Sample events, told apart by their amount, and two queues: the memory of a queue
  before \<^verbatim>\<open>event_queue_init\<close>, here all zero, and a queue that holds two events.
\<close>

definition sample_event :: "c_int \<Rightarrow> c_int \<Rightarrow> Event" where
  "sample_event prio amt =
     \<lparr>system = Some 200, resource = Some 0, status = STATUS_EMPTY, priority = prio, amount = amt\<rparr>"

definition zeroed_queue :: EventQueue where
  "zeroed_queue = \<lparr>head = [], queue_size = 0, eventQueue_mutex = 0\<rparr>"

definition sample_queue :: EventQueue where
  "sample_queue = \<lparr>head = [sample_event 3 0, sample_event 1 1], queue_size = 2, eventQueue_mutex = 1\<rparr>"

section \<open>The sample data of \<^verbatim>\<open>load_data\<close> in \<^verbatim>\<open>main.c\<close>\<close>

text \<open>
  The four resources as \<^verbatim>\<open>resource_create\<close> leaves them, at the addresses 0 to 3, and
  the four systems as \<^verbatim>\<open>system_create\<close> leaves them; the queue of the manager is at
  address 100.
\<close>

definition fuel :: Resource where
  "fuel = \<lparr>Resource.name = ''Fuel'', amount = 1000, max_capacity = 1000, resource_mutex = 1\<rparr>"

definition oxygen :: Resource where
  "oxygen = \<lparr>Resource.name = ''Oxygen'', amount = 20, max_capacity = 50, resource_mutex = 1\<rparr>"

definition energy :: Resource where
  "energy = \<lparr>Resource.name = ''Energy'', amount = 30, max_capacity = 50, resource_mutex = 1\<rparr>"

definition distance :: Resource where
  "distance = \<lparr>Resource.name = ''Distance'', amount = 0, max_capacity = 5000, resource_mutex = 1\<rparr>"

definition load_data :: world where
  "load_data = \<lparr>resources = [0 \<mapsto> fuel, 1 \<mapsto> oxygen, 2 \<mapsto> energy, 3 \<mapsto> distance], trace = []\<rparr>"

definition propulsion_system :: System where
  "propulsion_system =
     \<lparr>System.name = ''Propulsion'',
      consumed = \<lparr>ResourceAmount.resource = Some 0, amount = 5\<rparr>,
      produced = \<lparr>ResourceAmount.resource = Some 3, amount = 25\<rparr>,
      processing_time = 50, status = STANDARD, amount_stored = 0, event_queue = Some 100\<rparr>"

definition life_support_system :: System where
  "life_support_system =
     \<lparr>System.name = ''Life Support'',
      consumed = \<lparr>ResourceAmount.resource = Some 2, amount = 7\<rparr>,
      produced = \<lparr>ResourceAmount.resource = Some 1, amount = 4\<rparr>,
      processing_time = 10, status = STANDARD, amount_stored = 0, event_queue = Some 100\<rparr>"

definition crew_capsule_system :: System where
  "crew_capsule_system =
     \<lparr>System.name = ''Crew'',
      consumed = \<lparr>ResourceAmount.resource = Some 1, amount = 1\<rparr>,
      produced = \<lparr>ResourceAmount.resource = None, amount = 0\<rparr>,
      processing_time = 2, status = STANDARD, amount_stored = 0, event_queue = Some 100\<rparr>"

definition generator_system :: System where
  "generator_system =
     \<lparr>System.name = ''Generator'',
      consumed = \<lparr>ResourceAmount.resource = Some 0, amount = 5\<rparr>,
      produced = \<lparr>ResourceAmount.resource = Some 2, amount = 10\<rparr>,
      processing_time = 20, status = STANDARD, amount_stored = 0, event_queue = Some 100\<rparr>"

text \<open>
  Two further inputs: a worker that consumes nothing (\<^verbatim>\<open>resource_amount_init\<close> with
  \<^verbatim>\<open>NULL\<close>, as \<^verbatim>\<open>load_data\<close> does on the produced side of the crew capsule), and
  the sample data once the energy store is full while the generator still holds 10
  units of output.
\<close>

definition producer_only_system :: System where
  "producer_only_system =
     generator_system\<lparr>consumed := \<lparr>ResourceAmount.resource = None, amount = 0\<rparr>\<rparr>"

definition energy_full :: world where
  "energy_full = load_data\<lparr>resources := (resources load_data)(2 \<mapsto> energy\<lparr>Resource.amount := 50\<rparr>)\<rparr>"

definition generator_holding :: System where
  "generator_holding = generator_system\<lparr>amount_stored := 10\<rparr>"

section \<open>Sequences of calls on shared resources\<close>

text \<open>The capacity invariant of one resource: \<open>0 \<le> amount \<le> max_capacity\<close>.\<close>

definition resource_ok :: "Resource \<Rightarrow> bool" where
  "resource_ok res = (0 \<le>s Resource.amount res \<and> Resource.amount res \<le>s max_capacity res)"

text \<open>
  A call of a worker on the shared resources, with the worker as it is at the call;
  \<open>requested\<close> is the amount the call asks its resource to give or to take.
\<close>

datatype call = Convert System | Store System

fun requested :: "call \<Rightarrow> c_int" where
  "requested (Convert sys) = ResourceAmount.amount (consumed sys)"
| "requested (Store sys) = amount_stored sys"

fun do_call :: "call \<Rightarrow> world \<Rightarrow> fault + world" where
  "do_call (Convert sys) w =
     (case system_convert sys w of Inl f \<Rightarrow> Inl f | Inr (st, sys', w') \<Rightarrow> Inr w')"
| "do_call (Store sys) w =
     (case system_store_resources sys w of Inl f \<Rightarrow> Inl f | Inr (st, sys', w') \<Rightarrow> Inr w')"

text \<open>
  The worlds seen after each call of a sequence that returns. A call that waits on
  its semaphore changes nothing and the others go on; a call that faults ends the
  process.
\<close>

fun observed :: "call list \<Rightarrow> world \<Rightarrow> world list" where
  "observed [] w = []"
| "observed (c # cs) w =
     (case do_call c w of
        Inl Blocked \<Rightarrow> observed cs w
      | Inl f \<Rightarrow> []
      | Inr w' \<Rightarrow> w' # observed cs w')"

text \<open>
  A sequence of calls on the energy store of the sample data (address 2), and
  sequences of queue operations.
\<close>

definition sample_calls :: "call list" where
  "sample_calls =
     [Convert life_support_system, Store generator_holding, Store generator_holding,
      Store generator_holding, Convert life_support_system]"

definition sample_pushes :: "(bool \<times> Event) list" where
  "sample_pushes =
     [(True, sample_event 1 0), (True, sample_event 2 1), (False, sample_event 3 9),
      (True, sample_event 1 2), (True, sample_event 2 3)]"

definition sample_ops :: "queue_op list" where
  "sample_ops = map (case_prod Push) sample_pushes @ replicate 3 Pop"

section \<open>Properties\<close>

subsection \<open>Arithmetic of C integers\<close>

lemma sdiv2_bounds:
  "- (2 ^ 31) \<le> (k::int) \<Longrightarrow> k < 2 ^ 31 \<Longrightarrow> - (2 ^ 31) \<le> k sdiv 2 \<and> k sdiv 2 < 2 ^ 31"
  by (auto simp add: signed_divide_int_def sgn_if)

lemma sint_c_div_2: "sint (c_div a 2) = sint a sdiv 2"
proof -
  have "- (2 ^ 31) \<le> sint a \<and> sint a < 2 ^ 31"
    using sint_ge [of a] sint_lt [of a] by simp
  then have "- (2 ^ 31) \<le> sint a sdiv 2 \<and> sint a sdiv 2 < 2 ^ 31"
    using sdiv2_bounds by blast
  then show ?thesis
    by (simp add: c_div_def sint_sbintrunc' signed_take_bit_int_eq_self)
qed

lemma sint_double:
  "- (2 ^ 30) \<le> sint (a::c_int) \<Longrightarrow> sint a < 2 ^ 30 \<Longrightarrow> sint (a * 2) = 2 * sint a"
  by (simp add: sint_word_ariths signed_take_bit_int_eq_self)

lemma sdiv_even: "even (k::int) \<Longrightarrow> 2 * (k sdiv 2) = k"
  by (auto simp add: signed_divide_int_def sgn_if elim!: evenE)

lemma sint_sub_nonneg:
  "0 \<le> sint (c::c_int) \<Longrightarrow> sint c \<le> sint (a::c_int) \<Longrightarrow> sint (a - c) = sint a - sint c"
proof -
  assume c: "0 \<le> sint c" and ca: "sint c \<le> sint a"
  have "sint a < 2 ^ 31"
    using sint_lt [of a] by simp
  with c ca have "- (2 ^ 31) \<le> sint a - sint c \<and> sint a - sint c < 2 ^ 31"
    by simp
  then show ?thesis
    by (simp add: sint_word_ariths signed_take_bit_int_eq_self)
qed

lemma sint_add_bounded:
  "0 \<le> sint (a::c_int) \<Longrightarrow> 0 \<le> sint (t::c_int) \<Longrightarrow> sint a + sint t \<le> sint (m::c_int) \<Longrightarrow>
     sint (a + t) = sint a + sint t"
proof -
  assume a: "0 \<le> sint a" and t: "0 \<le> sint t" and m: "sint a + sint t \<le> sint m"
  have "sint m < 2 ^ 31"
    using sint_lt [of m] by simp
  with a t m have "- (2 ^ 31) \<le> sint a + sint t \<and> sint a + sint t < 2 ^ 31"
    by simp
  then show ?thesis
    by (simp add: sint_word_ariths signed_take_bit_int_eq_self)
qed

lemma consume_keeps_ok:
  assumes "0 \<le> sint (a::c_int)" and "sint a \<le> sint (m::c_int)"
    and "0 \<le> sint (c::c_int)" and "sint c \<le> sint a"
  shows "0 \<le> sint (a - c) \<and> sint (a - c) \<le> sint m"
  using assms by (simp add: sint_sub_nonneg)

lemma store_all_keeps_ok:
  assumes a: "0 \<le> sint (a::c_int)" and am: "sint a \<le> sint (m::c_int)"
    and t: "0 \<le> sint (t::c_int)" and ts: "sint t \<le> sint (m - a)"
  shows "0 \<le> sint (a + t) \<and> sint (a + t) \<le> sint m"
proof -
  from a am have "sint (m - a) = sint m - sint a"
    by (rule sint_sub_nonneg)
  with ts have le: "sint a + sint t \<le> sint m"
    by simp
  from a t le have "sint (a + t) = sint a + sint t"
    by (rule sint_add_bounded)
  with a t le show ?thesis
    by simp
qed

subsection \<open>The processing delay\<close>

text \<open>
  C9, as the spec states it, fails: with rate \<open>FAST\<close> the delay is not 0.5 times
  \<open>processing_time\<close> when that is odd. For 3 ms the code sleeps 1 ms, not 1.5 ms.
\<close>

theorem processing_delay_half_counterexample:
  "sint (adjusted_processing_time (crew_capsule_system\<lparr>processing_time := 3, System.status := FAST\<rparr>)) = 1 \<and>
   real_of_int 1 \<noteq>
     0.5 * real_of_int (sint (processing_time (crew_capsule_system\<lparr>processing_time := 3, System.status := FAST\<rparr>)))"
  by (simp add: adjusted_processing_time_def crew_capsule_system_def c_div_def signed_divide_int_def)

text \<open>
  C9, amended: the delay in milliseconds is \<open>adjusted_processing_time\<close>, and
  \<^verbatim>\<open>usleep\<close> is called once with 1000 times it. \<open>SLOW\<close> gives exactly twice
  \<open>processing_time\<close> as long as the product fits an \<^verbatim>\<open>int\<close>; \<open>FAST\<close> gives
  \<open>processing_time\<close> divided by 2 and truncated towards zero, which is exactly half
  of it when it is even; every other status (\<open>STANDARD\<close>, and \<open>TERMINATE\<close> too) gives
  \<open>processing_time\<close> itself.
\<close>

theorem processing_delay_scaled:
  "(System.status s = SLOW \<and> - (2 ^ 30) \<le> sint (processing_time s) \<and> sint (processing_time s) < 2 ^ 30
      \<longrightarrow> sint (adjusted_processing_time s) = 2 * sint (processing_time s)) \<and>
   (System.status s = FAST \<longrightarrow> sint (adjusted_processing_time s) = sint (processing_time s) sdiv 2) \<and>
   (System.status s = FAST \<and> even (sint (processing_time s))
      \<longrightarrow> real_of_int (sint (adjusted_processing_time s)) = 0.5 * real_of_int (sint (processing_time s))) \<and>
   (System.status s \<noteq> SLOW \<and> System.status s \<noteq> FAST \<longrightarrow> adjusted_processing_time s = processing_time s) \<and>
   trace (system_simulate_process_time s w) = trace w @ [Usleep (adjusted_processing_time s * 1000)]"
proof (intro conjI impI)
  assume "System.status s = SLOW \<and> - (2 ^ 30) \<le> sint (processing_time s) \<and> sint (processing_time s) < 2 ^ 30"
  then show "sint (adjusted_processing_time s) = 2 * sint (processing_time s)"
    by (simp add: adjusted_processing_time_def sint_double)
next
  assume "System.status s = FAST"
  then show "sint (adjusted_processing_time s) = sint (processing_time s) sdiv 2"
    by (simp add: adjusted_processing_time_def sint_c_div_2)
next
  assume a: "System.status s = FAST \<and> even (sint (processing_time s))"
  then have "sint (adjusted_processing_time s) = sint (processing_time s) sdiv 2"
    by (simp add: adjusted_processing_time_def sint_c_div_2)
  moreover have "2 * (sint (processing_time s) sdiv 2) = sint (processing_time s)"
    using a sdiv_even by blast
  ultimately have "2 * sint (adjusted_processing_time s) = sint (processing_time s)"
    by simp
  then have "real_of_int (2 * sint (adjusted_processing_time s)) = real_of_int (sint (processing_time s))"
    by simp
  then show "real_of_int (sint (adjusted_processing_time s)) = 0.5 * real_of_int (sint (processing_time s))"
    by simp
next
  assume "System.status s \<noteq> SLOW \<and> System.status s \<noteq> FAST"
  then show "adjusted_processing_time s = processing_time s"
    by (cases "System.status s") (simp_all add: adjusted_processing_time_def)
next
  show "trace (system_simulate_process_time s w) = trace w @ [Usleep (adjusted_processing_time s * 1000)]"
    by (simp add: system_simulate_process_time_def)
qed

theorem processing_delay_scaled_witness:
  "sint (adjusted_processing_time (propulsion_system\<lparr>System.status := SLOW\<rparr>)) = 100 \<and>
   sint (adjusted_processing_time (propulsion_system\<lparr>System.status := FAST\<rparr>)) = 25 \<and>
   real_of_int (sint (adjusted_processing_time (propulsion_system\<lparr>System.status := FAST\<rparr>))) = 0.5 * 50 \<and>
   adjusted_processing_time propulsion_system = 50 \<and>
   adjusted_processing_time (propulsion_system\<lparr>System.status := TERMINATE\<rparr>) = 50"
  using processing_delay_scaled [of "propulsion_system\<lparr>System.status := SLOW\<rparr>"]
    processing_delay_scaled [of "propulsion_system\<lparr>System.status := FAST\<rparr>"]
    processing_delay_scaled [of "propulsion_system"]
    processing_delay_scaled [of "propulsion_system\<lparr>System.status := TERMINATE\<rparr>"]
  by (simp add: propulsion_system_def signed_divide_int_def)

subsection \<open>Consuming and storing\<close>

text \<open>
  C2: on a resource that exists and whose semaphore is free, \<open>system_convert\<close>
  returns, and its consume step is \<^verbatim>\<open>try_consume\<close>: if the requested amount is at
  most the current amount, the resource loses exactly that amount and the status is
  \<open>STATUS_OK\<close>; otherwise the status is \<open>STATUS_EMPTY\<close> when the resource holds 0 and
  \<open>STATUS_INSUFFICIENT\<close> when it holds more, and neither the resource nor the worker
  changes. The subtraction is the one of C on \<^verbatim>\<open>int\<close>; for a request that is not
  negative it is the subtraction of the integers. No other resource changes.
\<close>

theorem system_convert_consume:
  assumes "ResourceAmount.resource (consumed sys) = Some p"
    and "resources w p = Some res"
    and "0 < resource_mutex res"
  shows "\<exists>st sys' w' res'.
           system_convert sys w = Inr (st, sys', w') \<and> resources w' p = Some res' \<and>
           (if ResourceAmount.amount (consumed sys) \<le>s Resource.amount res
            then st = STATUS_OK \<and>
                 Resource.amount res' = Resource.amount res - ResourceAmount.amount (consumed sys) \<and>
                 (0 \<le>s ResourceAmount.amount (consumed sys) \<longrightarrow>
                    sint (Resource.amount res') =
                      sint (Resource.amount res) - sint (ResourceAmount.amount (consumed sys)))
            else st = (if Resource.amount res = 0 then STATUS_EMPTY else STATUS_INSUFFICIENT) \<and>
                 Resource.amount res' = Resource.amount res \<and> sys' = sys) \<and>
           max_capacity res' = max_capacity res \<and>
           (\<forall>q. q \<noteq> p \<longrightarrow> resources w' q = resources w q)"
  using assms
  by (auto simp add: system_convert_def sem_wait_def sem_post_def Let_def
      system_simulate_process_time_def word_sle_eq sint_sub_nonneg)

text \<open>
  A witness on the sample data: the propulsion system takes 5 of 1000 units of fuel;
  a request for 21 of the 20 units of oxygen is refused and leaves the 20.
\<close>

theorem system_convert_consume_witness:
  "ResourceAmount.resource (consumed propulsion_system) = Some 0 \<and>
   resources load_data 0 = Some fuel \<and> 0 < resource_mutex fuel \<and>
   (\<exists>sys' w' res'. system_convert propulsion_system load_data = Inr (STATUS_OK, sys', w') \<and>
      resources w' 0 = Some res' \<and> Resource.amount res' = 995) \<and>
   (\<exists>sys' w' res'.
      system_convert (propulsion_system\<lparr>consumed := \<lparr>ResourceAmount.resource = Some 1, amount = 21\<rparr>\<rparr>)
        load_data = Inr (STATUS_INSUFFICIENT, sys', w') \<and>
      resources w' 1 = Some res' \<and> Resource.amount res' = 20)"
proof -
  have h1: "ResourceAmount.resource (consumed propulsion_system) = Some 0"
    by (simp add: propulsion_system_def)
  have h2: "resources load_data 0 = Some fuel"
    by (simp add: load_data_def)
  have h3: "0 < resource_mutex fuel"
    by (simp add: fuel_def)
  let ?s = "propulsion_system\<lparr>consumed := \<lparr>ResourceAmount.resource = Some 1, amount = 21\<rparr>\<rparr>"
  have g1: "ResourceAmount.resource (consumed ?s) = Some 1"
    by simp
  have g2: "resources load_data 1 = Some oxygen"
    by (simp add: load_data_def)
  have g3: "0 < resource_mutex oxygen"
    by (simp add: oxygen_def)
  have a: "\<exists>sys' w' res'. system_convert propulsion_system load_data = Inr (STATUS_OK, sys', w') \<and>
      resources w' 0 = Some res' \<and> Resource.amount res' = 995"
    using system_convert_consume [OF h1 h2 h3]
    by (auto simp add: propulsion_system_def fuel_def word_sle_eq)
  have b: "\<exists>sys' w' res'. system_convert ?s load_data = Inr (STATUS_INSUFFICIENT, sys', w') \<and>
      resources w' 1 = Some res' \<and> Resource.amount res' = 20"
    using system_convert_consume [OF g1 g2 g3]
    by (auto simp add: propulsion_system_def oxygen_def word_sle_eq)
  from a b h1 h2 h3 show ?thesis
    by simp
qed

text \<open>
  C3: on a resource that exists and whose semaphore is free, \<open>system_store_resources\<close>
  returns, and with \<open>space = max_capacity - amount\<close> of the resource and \<open>amt\<close> the
  \<open>amount_stored\<close> of the worker: if \<open>amt \<le> space\<close>, all of \<open>amt\<close> is added, the
  worker keeps 0 and the status is \<open>STATUS_OK\<close>; if \<open>0 < space < amt\<close>, exactly
  \<open>space\<close> is added, the resource is at \<open>max_capacity\<close> and the worker keeps
  \<open>amt - space\<close>; if \<open>space = 0\<close> (and there is something to store), nothing is added
  and the worker keeps \<open>amt\<close>. In the last two cases the status is \<open>STATUS_CAPACITY\<close>, and
  the worker returned is the one given but for what it keeps.
\<close>

theorem system_store_resources_spec:
  assumes "ResourceAmount.resource (produced sys) = Some p"
    and "resources w p = Some res"
    and "0 < resource_mutex res"
  shows "\<exists>st sys' w' res'.
           system_store_resources sys w = Inr (st, sys', w') \<and> resources w' p = Some res' \<and>
           (let space = max_capacity res - Resource.amount res; amt = amount_stored sys in
              (amt \<le>s space \<longrightarrow>
                 Resource.amount res' = Resource.amount res + amt \<and> sys' = sys\<lparr>amount_stored := 0\<rparr> \<and>
                 st = STATUS_OK) \<and>
              (0 <s space \<and> space <s amt \<longrightarrow>
                 Resource.amount res' = Resource.amount res + space \<and>
                 Resource.amount res' = max_capacity res \<and>
                 sys' = sys\<lparr>amount_stored := amt - space\<rparr> \<and> st = STATUS_CAPACITY) \<and>
              (space = 0 \<and> \<not> amt \<le>s space \<longrightarrow>
                 Resource.amount res' = Resource.amount res \<and> sys' = sys \<and>
                 amount_stored sys' = amt \<and> st = STATUS_CAPACITY))"
  using assms
  by (auto simp add: system_store_resources_def sem_wait_def sem_post_def Let_def
      word_sle_eq word_sless_alt)

text \<open>
  A witness on the sample data (energy holds 30 of 50): 10 units are stored whole; of
  25 units 20 are stored and 5 kept; with the store full, 10 units are all kept.
\<close>

theorem system_store_resources_spec_witness:
  "ResourceAmount.resource (produced generator_holding) = Some 2 \<and>
   resources load_data 2 = Some energy \<and> 0 < resource_mutex energy \<and>
   (\<exists>w' res'. system_store_resources generator_holding load_data =
        Inr (STATUS_OK, generator_holding\<lparr>amount_stored := 0\<rparr>, w') \<and>
      resources w' 2 = Some res' \<and> Resource.amount res' = 40) \<and>
   (\<exists>w' res'. system_store_resources (generator_holding\<lparr>amount_stored := 25\<rparr>) load_data =
        Inr (STATUS_CAPACITY, generator_holding\<lparr>amount_stored := 5\<rparr>, w') \<and>
      resources w' 2 = Some res' \<and> Resource.amount res' = 50) \<and>
   (\<exists>w' res'. system_store_resources generator_holding energy_full =
        Inr (STATUS_CAPACITY, generator_holding, w') \<and>
      resources w' 2 = Some res' \<and> Resource.amount res' = 50)"
proof -
  have h1: "ResourceAmount.resource (produced generator_holding) = Some 2"
    by (simp add: generator_holding_def generator_system_def)
  have h2: "resources load_data 2 = Some energy"
    by (simp add: load_data_def)
  have h3: "0 < resource_mutex energy"
    by (simp add: energy_def)
  let ?s = "generator_holding\<lparr>amount_stored := 25\<rparr>"
  have g1: "ResourceAmount.resource (produced ?s) = Some 2"
    by (simp add: generator_holding_def generator_system_def)
  let ?full = "energy\<lparr>Resource.amount := 50\<rparr>"
  have f2: "resources energy_full 2 = Some ?full"
    by (simp add: energy_full_def)
  have f3: "0 < resource_mutex ?full"
    by (simp add: energy_def)
  have a: "\<exists>w' res'. system_store_resources generator_holding load_data =
        Inr (STATUS_OK, generator_holding\<lparr>amount_stored := 0\<rparr>, w') \<and>
      resources w' 2 = Some res' \<and> Resource.amount res' = 40"
    using system_store_resources_spec [OF h1 h2 h3]
    by (auto simp add: generator_holding_def energy_def word_sle_eq word_sless_alt Let_def)
  have b: "\<exists>w' res'. system_store_resources ?s load_data =
        Inr (STATUS_CAPACITY, generator_holding\<lparr>amount_stored := 5\<rparr>, w') \<and>
      resources w' 2 = Some res' \<and> Resource.amount res' = 50"
    using system_store_resources_spec [OF g1 h2 h3]
    by (auto simp add: generator_holding_def energy_def word_sle_eq word_sless_alt Let_def)
  have c: "\<exists>w' res'. system_store_resources generator_holding energy_full =
        Inr (STATUS_CAPACITY, generator_holding, w') \<and>
      resources w' 2 = Some res' \<and> Resource.amount res' = 50"
    using system_store_resources_spec [OF h1 f2 f3]
    by (auto simp add: generator_holding_def energy_def word_sle_eq word_sless_alt Let_def)
  from a b c h1 h2 h3 show ?thesis
    by simp
qed

subsection \<open>The capacity invariant\<close>

lemma convert_keeps_ok:
  assumes "system_convert sys w = Inr (st, sys', w')"
    and "resources w p = Some res" and "resource_ok res"
    and "0 \<le>s ResourceAmount.amount (consumed sys)"
  shows "\<exists>res'. resources w' p = Some res' \<and> resource_ok res' \<and> max_capacity res' = max_capacity res"
  using assms
  by (auto simp add: system_convert_def sem_wait_def sem_post_def Let_def
      system_simulate_process_time_def resource_ok_def word_sle_eq consume_keeps_ok
      split: option.splits if_splits)

lemma store_keeps_ok:
  assumes "system_store_resources sys w = Inr (st, sys', w')"
    and "resources w p = Some res" and "resource_ok res"
    and "0 \<le>s amount_stored sys"
  shows "\<exists>res'. resources w' p = Some res' \<and> resource_ok res' \<and> max_capacity res' = max_capacity res"
  using assms
  by (auto simp add: system_store_resources_def sem_wait_def sem_post_def Let_def
      resource_ok_def word_sle_eq word_sless_alt store_all_keeps_ok
      split: option.splits if_splits)

lemma do_call_keeps_ok:
  assumes "do_call c w = Inr w'"
    and "resources w p = Some res" and "resource_ok res"
    and "0 \<le>s requested c"
  shows "\<exists>res'. resources w' p = Some res' \<and> resource_ok res' \<and> max_capacity res' = max_capacity res"
proof (cases c)
  case (Convert sys)
  with assms show ?thesis
    by (auto split: sum.splits dest: convert_keeps_ok)
next
  case (Store sys)
  with assms show ?thesis
    by (auto split: sum.splits dest: store_keeps_ok)
qed

text \<open>
  C1: take a resource with \<open>0 \<le> amount \<le> max_capacity\<close> and any sequence of
  \<open>system_convert\<close> and \<open>system_store_resources\<close> calls, by any workers on any
  resources, whose requested amounts are not negative. After every call of the
  sequence that returns, the resource is still there with the same \<open>max_capacity\<close>,
  and \<open>0 \<le> amount \<le> max_capacity\<close> holds.
\<close>

theorem capacity_invariant:
  assumes "resources w p = Some res" and "resource_ok res"
    and "\<forall>c \<in> set calls. 0 \<le>s requested c"
  shows "\<forall>w' \<in> set (observed calls w).
           \<exists>res'. resources w' p = Some res' \<and> resource_ok res' \<and> max_capacity res' = max_capacity res"
  using assms
proof (induction calls arbitrary: w res)
  case Nil
  then show ?case by simp
next
  case (Cons c cs)
  show ?case
  proof (cases "do_call c w")
    case (Inl f)
    with Cons show ?thesis by (cases f) auto
  next
    case (Inr w1)
    with Cons.prems obtain res1 where r1: "resources w1 p = Some res1" "resource_ok res1"
        "max_capacity res1 = max_capacity res"
      using do_call_keeps_ok [of c w w1 p res] by auto
    with Cons.IH [of w1 res1] Cons.prems(3)
    have "\<forall>w' \<in> set (observed cs w1).
           \<exists>res'. resources w' p = Some res' \<and> resource_ok res' \<and> max_capacity res' = max_capacity res"
      by simp
    with Inr r1 show ?thesis by simp
  qed
qed

text \<open>
  A witness on the energy store of the sample data (30 of 50): life support takes 7,
  the generator stores 10 three times, the last time only 7 of them, and the final
  call of life support waits on the semaphore. The amounts seen are 23, 33, 43, 50.
\<close>

theorem capacity_invariant_witness:
  "resources load_data 2 = Some energy \<and> resource_ok energy \<and>
   list_all (\<lambda>c. 0 \<le>s requested c) sample_calls \<and>
   map (\<lambda>w'. map_option Resource.amount (resources w' 2)) (observed sample_calls load_data) =
     [Some 23, Some 33, Some 43, Some 50] \<and>
   list_all (\<lambda>w'. \<exists>res'. resources w' 2 = Some res' \<and> resource_ok res' \<and>
                         max_capacity res' = max_capacity energy)
     (observed sample_calls load_data)"
proof -
  have h1: "resources load_data 2 = Some energy"
    by (simp add: load_data_def)
  have h2: "resource_ok energy"
    by (simp add: resource_ok_def energy_def word_sle_eq)
  have h3: "\<forall>c \<in> set sample_calls. 0 \<le>s requested c"
    by (simp add: sample_calls_def life_support_system_def generator_holding_def
        generator_system_def word_sle_eq)
  have obs: "map (\<lambda>w'. map_option Resource.amount (resources w' 2)) (observed sample_calls load_data) =
     [Some 23, Some 33, Some 43, Some 50]"
    by (simp add: sample_calls_def load_data_def energy_def life_support_system_def
        generator_holding_def generator_system_def system_convert_def system_store_resources_def
        sem_wait_def sem_post_def system_simulate_process_time_def adjusted_processing_time_def
        word_sle_eq word_sless_alt Let_def)
  from capacity_invariant [OF h1 h2 h3] h1 h2 h3 obs show ?thesis
    by (simp add: list_all_iff)
qed

subsection \<open>Semaphores of resources on the exit paths\<close>

text \<open>
  C6 does not hold of the code; three runs on the sample data show it. With the
  energy store full and 10 units held, \<open>system_store_resources\<close> returns
  \<open>STATUS_CAPACITY\<close> having called \<^verbatim>\<open>sem_wait\<close> and no \<^verbatim>\<open>sem_post\<close>: the semaphore
  stays at 0 and the next call on that resource waits. With nothing held, its first
  \<^verbatim>\<open>return\<close> leaves the semaphore at 0 in the same way. And \<open>system_convert\<close> sleeps
  the processing delay between its \<^verbatim>\<open>sem_wait\<close> and its \<^verbatim>\<open>sem_post\<close>.
\<close>

theorem resource_lock_not_released:
  "(\<exists>w'. system_store_resources generator_holding energy_full =
          Inr (STATUS_CAPACITY, generator_holding, w') \<and>
        map_option resource_mutex (resources w' 2) = Some 0 \<and>
        trace w' = [Sem_wait 2] \<and>
        system_store_resources generator_holding w' = Inl Blocked) \<and>
   (\<exists>w'. system_store_resources generator_system load_data = Inr (STATUS_OK, generator_system, w') \<and>
        map_option resource_mutex (resources w' 2) = Some 0 \<and>
        trace w' = [Sem_wait 2]) \<and>
   (\<exists>s' w'. system_convert generator_system load_data = Inr (STATUS_OK, s', w') \<and>
        trace w' = [Sem_wait 0, Usleep 20000, Sem_post 0])"
  by (simp add: system_store_resources_def system_convert_def sem_wait_def sem_post_def
      generator_holding_def generator_system_def energy_full_def load_data_def energy_def fuel_def
      system_simulate_process_time_def adjusted_processing_time_def word_sle_eq word_sless_alt)

text \<open>
  C7 does not hold of the code: \<open>system_convert\<close> calls \<^verbatim>\<open>sem_wait\<close> on the semaphore
  of the consumed resource before it tests the resource for \<^verbatim>\<open>NULL\<close>, so a worker
  that consumes nothing reads through \<^verbatim>\<open>NULL\<close> and never reaches \<open>STATUS_OK\<close>.
\<close>

theorem system_convert_null_consumed:
  "system_convert (sys\<lparr>consumed := \<lparr>ResourceAmount.resource = None, amount = a\<rparr>\<rparr>) w =
     Inl Null_dereference \<and>
   system_convert producer_only_system load_data = Inl Null_dereference \<and>
   system_convert producer_only_system load_data \<noteq> Inr (STATUS_OK, s', w')"
  by (simp add: system_convert_def sem_wait_def producer_only_system_def)

subsection \<open>The event queue: one operation\<close>

lemma push_ok:
  "0 < eventQueue_mutex q \<Longrightarrow>
     event_queue_push True q e =
       Inr (q\<lparr>head := insert_after e (head q), queue_size := queue_size q + 1\<rparr>)"
  by (cases "head q") (simp_all add: event_queue_push_def Let_def word_sless_alt word_sle_eq not_less)

lemma pop_ok:
  "0 < eventQueue_mutex q \<Longrightarrow>
     event_queue_pop q ev =
       (case head q of
          [] \<Rightarrow> Inr (0, q, ev)
        | h # rest \<Rightarrow> Inr (1, q\<lparr>head := rest, queue_size := queue_size q - 1\<rparr>, h))"
  by (cases "head q") (simp_all add: event_queue_pop_def Let_def)

lemma init_free:
  "0 < eventQueue_mutex (event_queue_init q0)" "head (event_queue_init q0) = []"
  by (simp_all add: event_queue_init_def)

text \<open>\<^verbatim>\<open>event_queue_init\<close> does not write the field \<^verbatim>\<open>size\<close>: it keeps what the memory held.\<close>

lemma event_queue_init_leaves_size: "queue_size (event_queue_init q0) = queue_size q0"
  by (simp add: event_queue_init_def)

lemma insert_after_takeWhile:
  "insert_after e xs =
     takeWhile (\<lambda>x. priority e \<le>s priority x) xs @ e # dropWhile (\<lambda>x. priority e \<le>s priority x) xs"
  by (induction xs) simp_all

lemma set_insert_after: "set (insert_after e xs) = insert e (set xs)"
  by (induction xs) auto

lemma length_insert_after: "length (insert_after e xs) = Suc (length xs)"
  by (induction xs) auto

lemma mset_insert_after: "mset (insert_after e xs) = add_mset e (mset xs)"
  by (induction xs) auto

lemma sorted_insert_after: "descending xs \<Longrightarrow> descending (insert_after e xs)"
  by (induction xs) (auto simp add: set_insert_after word_sle_eq)

text \<open>
  In a queue in descending order, the new event goes behind every event of its own
  priority: the events of each priority stay in the order of their pushes.
\<close>

lemma filter_insert_after:
  "descending xs \<Longrightarrow>
     filter (\<lambda>x. priority x = p) (insert_after e xs) =
       filter (\<lambda>x. priority x = p) xs @ (if priority e = p then [e] else [])"
proof (induction xs)
  case Nil
  then show ?case by simp
next
  case (Cons n rest)
  show ?case
  proof (cases "priority e \<le>s priority n")
    case True
    with Cons show ?thesis by simp
  next
    case False
    then have lt: "sint (priority n) < sint (priority e)"
      by (simp add: word_sle_eq)
    from Cons.prems have "\<forall>y \<in> set rest. sint (priority y) \<le> sint (priority n)"
      by simp
    with lt have "\<forall>y \<in> set (n # rest). sint (priority y) < sint (priority e)"
      by auto
    then have "\<forall>y \<in> set (n # rest). priority y \<noteq> priority e"
      by auto
    then have "priority e = p \<Longrightarrow> filter (\<lambda>x. priority x = p) (n # rest) = []"
      by (auto simp add: filter_empty_conv)
    with False show ?thesis by auto
  qed
qed

lemma fold_insert_after:
  "descending xs \<Longrightarrow>
     descending (fold insert_after es xs) \<and>
     (\<forall>p. filter (\<lambda>x. priority x = p) (fold insert_after es xs) =
            filter (\<lambda>x. priority x = p) xs @ filter (\<lambda>x. priority x = p) es) \<and>
     length (fold insert_after es xs) = length xs + length es"
proof (induction es arbitrary: xs)
  case Nil
  then show ?case by simp
next
  case (Cons e es)
  from Cons.prems have d: "descending (insert_after e xs)"
    by (rule sorted_insert_after)
  from Cons.IH [OF d] Cons.prems show ?case
    by (simp add: filter_insert_after length_insert_after)
qed

lemma mset_fold_insert_after: "mset (fold insert_after es xs) = mset xs + mset es"
  by (induction es arbitrary: xs) (simp_all add: mset_insert_after)

text \<open>
  C8: when the semaphore of the queue is free, \<open>event_queue_pop\<close> returns at once.
  On an empty queue it returns 0 and leaves the queue and the out-parameter as they
  were; on a queue with head \<open>h\<close> it returns 1, writes \<open>h\<close> to the out-parameter,
  unlinks the head and counts \<^verbatim>\<open>size\<close> down by one.
\<close>

theorem event_queue_pop_spec:
  "0 < eventQueue_mutex queue \<Longrightarrow>
     (head queue = [] \<longrightarrow> event_queue_pop queue event = Inr (0, queue, event)) \<and>
     (\<forall>h rest. head queue = h # rest \<longrightarrow>
        event_queue_pop queue event =
          Inr (1, queue\<lparr>head := rest, queue_size := queue_size queue - 1\<rparr>, h))"
  by (simp add: event_queue_pop_def Let_def)

theorem event_queue_pop_spec_witness:
  "0 < eventQueue_mutex sample_queue \<and>
   0 < eventQueue_mutex (event_queue_init zeroed_queue) \<and>
   event_queue_pop (event_queue_init zeroed_queue) (sample_event 0 0) =
     Inr (0, event_queue_init zeroed_queue, sample_event 0 0) \<and>
   event_queue_pop sample_queue (sample_event 0 0) =
     Inr (1, \<lparr>head = [sample_event 1 1], queue_size = 1, eventQueue_mutex = 1\<rparr>, sample_event 3 0)"
proof -
  have h: "0 < eventQueue_mutex sample_queue"
    by (simp add: sample_queue_def)
  have g: "0 < eventQueue_mutex (event_queue_init zeroed_queue)"
    by (simp add: event_queue_init_def)
  have e: "head (event_queue_init zeroed_queue) = []"
    by (simp add: event_queue_init_def)
  from event_queue_pop_spec [OF h, of "sample_event 0 0"]
    event_queue_pop_spec [OF g, of "sample_event 0 0"] h g e
  show ?thesis
    by (simp add: sample_queue_def)
qed

text \<open>
  C10: when \<^verbatim>\<open>malloc\<close> returns no node, \<open>event_queue_push\<close> returns the queue as it
  was: the same events in the same order, the same \<^verbatim>\<open>size\<close>, and the semaphore back
  at its value, so that a pop or a push that follows does not wait.
\<close>

theorem failed_push_leaves_queue:
  "0 < eventQueue_mutex queue \<Longrightarrow>
     event_queue_push False queue event = Inr queue \<and>
     event_queue_pop queue ev \<noteq> Inl Blocked \<and>
     event_queue_push b queue e' \<noteq> Inl Blocked"
  by (simp add: event_queue_push_def event_queue_pop_def Let_def split: list.splits)

theorem failed_push_leaves_queue_witness:
  "0 < eventQueue_mutex sample_queue \<and>
   event_queue_push False sample_queue (sample_event 2 5) = Inr sample_queue \<and>
   event_queue_pop sample_queue (sample_event 0 0) \<noteq> Inl Blocked"
proof -
  have h: "0 < eventQueue_mutex sample_queue"
    by (simp add: sample_queue_def)
  from failed_push_leaves_queue [OF h] h show ?thesis
    by simp
qed

subsection \<open>The event queue: sequences of operations\<close>

lemma push_failed:
  "0 < eventQueue_mutex q \<Longrightarrow> event_queue_push False q e = Inr q"
  by (simp add: event_queue_push_def Let_def)

lemma run_pushes:
  "0 < eventQueue_mutex q \<Longrightarrow>
     \<exists>q'. run_ops (map (case_prod Push) bes @ ops) q ev = run_ops ops q' ev \<and>
          head q' = fold insert_after (allocated bes) (head q) \<and>
          eventQueue_mutex q' = eventQueue_mutex q"
proof (induction bes arbitrary: q)
  case Nil
  then show ?case by (auto simp add: allocated_def)
next
  case (Cons be bes)
  obtain b e where be: "be = (b, e)"
    by (cases be)
  show ?case
  proof (cases b)
    case True
    let ?q1 = "q\<lparr>head := insert_after e (head q), queue_size := queue_size q + 1\<rparr>"
    from Cons.prems have m: "0 < eventQueue_mutex ?q1"
      by simp
    from Cons.IH [OF m] Cons.prems be True show ?thesis
      by (simp add: push_ok allocated_def)
  next
    case False
    from Cons.IH [OF Cons.prems] Cons.prems be False show ?thesis
      by (simp add: push_failed allocated_def)
  qed
qed

lemma run_pops:
  "0 < eventQueue_mutex q \<Longrightarrow>
     \<exists>q'. run_ops (replicate k Pop) q ev = Inr (take k (head q), q') \<and>
          head q' = drop k (head q) \<and> eventQueue_mutex q' = eventQueue_mutex q"
proof (induction k arbitrary: q ev)
  case 0
  then show ?case by simp
next
  case (Suc k)
  show ?case
  proof (cases "head q")
    case Nil
    with Suc.IH [OF Suc.prems, of ev] Suc.prems show ?thesis
      by (auto simp add: pop_ok)
  next
    case (Cons h rest)
    let ?q1 = "q\<lparr>head := rest, queue_size := queue_size q - 1\<rparr>"
    from Suc.prems have m: "0 < eventQueue_mutex ?q1"
      by simp
    from Suc.IH [OF m, of h] Cons Suc.prems show ?thesis
      by (auto simp add: pop_ok)
  qed
qed

text \<open>
  Any sequence of operations on a queue whose semaphore is free runs to its end;
  what was queued and what was pushed is what was popped and what is left.
\<close>

lemma run_ops_conserves:
  "0 < eventQueue_mutex q \<Longrightarrow>
     \<exists>out q'. run_ops ops q ev = Inr (out, q') \<and>
          eventQueue_mutex q' = eventQueue_mutex q \<and>
          mset (head q) + mset (pushed ops) = mset out + mset (head q') \<and>
          length out \<le> pops ops"
proof (induction ops arbitrary: q ev)
  case Nil
  then show ?case by simp
next
  case (Cons op ops)
  note free = Cons.prems
  show ?case
  proof (cases op)
    case (Push b e)
    show ?thesis
    proof (cases b)
      case True
      let ?q1 = "q\<lparr>head := insert_after e (head q), queue_size := queue_size q + 1\<rparr>"
      from free have m: "0 < eventQueue_mutex ?q1"
        by simp
      from Cons.IH [OF m, of ev] free Push True show ?thesis
        by (auto simp add: push_ok mset_insert_after)
    next
      case False
      from Cons.IH [OF free, of ev] free Push False show ?thesis
        by (auto simp add: push_failed)
    qed
  next
    case Pop
    show ?thesis
    proof (cases "head q")
      case Nil
      with Cons.IH [OF free, of ev] free Pop show ?thesis
        by (auto simp add: pop_ok)
    next
      case hq: (Cons h rest)
      let ?q1 = "q\<lparr>head := rest, queue_size := queue_size q - 1\<rparr>"
      from free have m: "0 < eventQueue_mutex ?q1"
        by simp
      from Cons.IH [OF m, of h] hq free Pop show ?thesis
        by (auto simp add: pop_ok)
    qed
  qed
qed

text \<open>
  C4: make the pushes \<open>bes\<close> in order on a queue fresh from \<open>event_queue_init\<close>,
  whatever \<^verbatim>\<open>malloc\<close> does in each, then pop \<open>k\<close> times. The run ends; the
  priorities of the popped events, in the order of the pops, never increase; for
  each priority, the popped events of that priority are the first ones queued with
  it, in the order of their pushes; and once \<open>k\<close> reaches the number of queued
  events, the popped events are exactly those. Equivalently, on any queue with a
  free semaphore, a push that gets its node puts the new event right behind the
  leading run of events whose priority is at least its own, and counts \<^verbatim>\<open>size\<close> up
  by one.
\<close>

theorem priority_order_fifo:
  "(\<exists>out q. run_ops (map (case_prod Push) bes @ replicate k Pop) (event_queue_init q0) ev =
         Inr (out, q) \<and>
       sorted_wrt (\<ge>) (map (\<lambda>e. sint (priority e)) out) \<and>
       (\<forall>p. prefix (filter (\<lambda>e. priority e = p) out) (filter (\<lambda>e. priority e = p) (allocated bes))) \<and>
       (length (allocated bes) \<le> k \<longrightarrow> mset out = mset (allocated bes))) \<and>
   (0 < eventQueue_mutex queue \<longrightarrow>
      event_queue_push True queue e =
        Inr (queue\<lparr>head := takeWhile (\<lambda>x. priority e \<le>s priority x) (head queue) @
                             e # dropWhile (\<lambda>x. priority e \<le>s priority x) (head queue),
                     queue_size := queue_size queue + 1\<rparr>))"
proof (intro conjI impI)
  let ?i = "event_queue_init q0"
  let ?es = "allocated bes"
  let ?xs = "fold insert_after ?es []"
  let ?ops = "map (case_prod Push) bes @ replicate k Pop"
  obtain q1 where q1: "run_ops ?ops ?i ev = run_ops (replicate k Pop) q1 ev"
      "head q1 = ?xs" "eventQueue_mutex q1 = eventQueue_mutex ?i"
    using run_pushes [of "event_queue_init q0" bes "replicate k Pop" ev] by (auto simp add: init_free)
  then have m: "0 < eventQueue_mutex q1"
    by (simp add: init_free)
  obtain q2 where q2: "run_ops (replicate k Pop) q1 ev = Inr (take k ?xs, q2)"
    using run_pops [of q1 k ev] m q1(2) by auto
  have d: "descending ?xs"
    and f: "\<And>p. filter (\<lambda>x. priority x = p) ?xs = filter (\<lambda>x. priority x = p) ?es"
    and l: "length ?xs = length ?es"
    using fold_insert_after [of "[]" ?es] by simp_all
  have s: "sorted_wrt (\<ge>) (map (\<lambda>e. sint (priority e)) (take k ?xs))"
    using d by (simp add: sorted_wrt_map sorted_wrt_take)
  have p: "\<forall>p. prefix (filter (\<lambda>e. priority e = p) (take k ?xs)) (filter (\<lambda>e. priority e = p) ?es)"
  proof
    fix p
    have "filter (\<lambda>e. priority e = p) ?xs =
            filter (\<lambda>e. priority e = p) (take k ?xs) @ filter (\<lambda>e. priority e = p) (drop k ?xs)"
      by (metis append_take_drop_id filter_append)
    then show "prefix (filter (\<lambda>e. priority e = p) (take k ?xs)) (filter (\<lambda>e. priority e = p) ?es)"
      using f [of p] by (simp add: prefix_def)
  qed
  have a: "length ?es \<le> k \<longrightarrow> mset (take k ?xs) = mset ?es"
  proof
    assume "length ?es \<le> k"
    with l have "take k ?xs = ?xs"
      by simp
    then show "mset (take k ?xs) = mset ?es"
      by (simp add: mset_fold_insert_after)
  qed
  from q1(1) q2 s p a
  show "\<exists>out q. run_ops ?ops ?i ev = Inr (out, q) \<and>
       sorted_wrt (\<ge>) (map (\<lambda>e. sint (priority e)) out) \<and>
       (\<forall>p. prefix (filter (\<lambda>e. priority e = p) out) (filter (\<lambda>e. priority e = p) ?es)) \<and>
       (length ?es \<le> k \<longrightarrow> mset out = mset ?es)"
    by auto
next
  assume "0 < eventQueue_mutex queue"
  then show "event_queue_push True queue e =
        Inr (queue\<lparr>head := takeWhile (\<lambda>x. priority e \<le>s priority x) (head queue) @
                             e # dropWhile (\<lambda>x. priority e \<le>s priority x) (head queue),
                     queue_size := queue_size queue + 1\<rparr>)"
    by (simp add: push_ok insert_after_takeWhile)
qed

text \<open>
  A witness: priorities 1, 2, 3, 1, 2 are pushed, the push of priority 3 gets no
  node, and three events are popped: the two of priority 2 in the order of their
  pushes, then the first of priority 1. And a push of priority 1 on a queue that
  holds priorities 3 and 1 goes to the end.
\<close>

theorem priority_order_fifo_witness:
  "(\<exists>out q. run_ops sample_ops (event_queue_init zeroed_queue) (sample_event 0 0) = Inr (out, q) \<and>
      out = [sample_event 2 1, sample_event 2 3, sample_event 1 0] \<and>
      sorted_wrt (\<ge>) (map (\<lambda>e. sint (priority e)) out) \<and>
      prefix (filter (\<lambda>e. priority e = 2) out)
        (filter (\<lambda>e. priority e = 2) (allocated sample_pushes))) \<and>
   0 < eventQueue_mutex sample_queue \<and>
   event_queue_push True sample_queue (sample_event 1 5) =
     Inr \<lparr>head = [sample_event 3 0, sample_event 1 1, sample_event 1 5], queue_size = 3,
          eventQueue_mutex = 1\<rparr>"
proof -
  have h: "0 < eventQueue_mutex sample_queue"
    by (simp add: sample_queue_def)
  have r: "run_ops sample_ops (event_queue_init zeroed_queue) (sample_event 0 0) =
      Inr ([sample_event 2 1, sample_event 2 3, sample_event 1 0],
           \<lparr>head = [sample_event 1 2], queue_size = 1, eventQueue_mutex = 1\<rparr>)"
    by (simp add: sample_ops_def sample_pushes_def event_queue_init_def zeroed_queue_def
        event_queue_push_def event_queue_pop_def sample_event_def word_sle_eq word_sless_alt
        numeral_3_eq_3)
  note t = priority_order_fifo [of sample_pushes 3 zeroed_queue "sample_event 0 0" sample_queue
      "sample_event 1 5"]
  from t r have s: "sorted_wrt (\<ge>) (map (\<lambda>e. sint (priority e))
      [sample_event 2 1, sample_event 2 3, sample_event 1 0])"
    by (simp add: sample_ops_def)
  from t r have "\<forall>p. prefix (filter (\<lambda>e. priority e = p) [sample_event 2 1, sample_event 2 3, sample_event 1 0])
      (filter (\<lambda>e. priority e = p) (allocated sample_pushes))"
    by (simp add: sample_ops_def)
  then have p: "prefix (filter (\<lambda>e. priority e = 2) [sample_event 2 1, sample_event 2 3, sample_event 1 0])
      (filter (\<lambda>e. priority e = 2) (allocated sample_pushes))"
    by (rule spec)
  from t h have "event_queue_push True sample_queue (sample_event 1 5) =
     Inr (sample_queue\<lparr>head := takeWhile (\<lambda>x. priority (sample_event 1 5) \<le>s priority x) (head sample_queue) @
                             sample_event 1 5 # dropWhile (\<lambda>x. priority (sample_event 1 5) \<le>s priority x) (head sample_queue),
                     queue_size := queue_size sample_queue + 1\<rparr>)"
    by simp
  then have e: "event_queue_push True sample_queue (sample_event 1 5) =
     Inr \<lparr>head = [sample_event 3 0, sample_event 1 1, sample_event 1 5], queue_size = 3,
          eventQueue_mutex = 1\<rparr>"
    by (simp add: sample_queue_def sample_event_def word_sle_eq)
  from r s p h e show ?thesis
    by simp
qed

text \<open>
  C5, as the spec states it, fails for a sequence in which a pop meets the empty
  queue: after one pop and then one push (\<open>N = 1\<close>, \<open>M = 1 \<le> N\<close>) on a queue fresh
  from \<open>event_queue_init\<close>, the queue holds one event and its \<^verbatim>\<open>size\<close> is 1, not
  \<open>N - M = 0\<close>.
\<close>

theorem pop_before_push_counterexample:
  "run_ops [Pop, Push True (sample_event 1 0)] (event_queue_init zeroed_queue) (sample_event 0 0) =
     Inr ([], \<lparr>head = [sample_event 1 0], queue_size = 1, eventQueue_mutex = 1\<rparr>) \<and>
   pops [Pop, Push True (sample_event 1 0)] \<le> length (pushed [Pop, Push True (sample_event 1 0)]) \<and>
   length [sample_event 1 0] \<noteq>
     length (pushed [Pop, Push True (sample_event 1 0)]) - pops [Pop, Push True (sample_event 1 0)]"
  by (simp add: event_queue_init_def zeroed_queue_def event_queue_pop_def event_queue_push_def)

text \<open>
  C5, amended: run any sequence of pushes and pops on a queue fresh from
  \<open>event_queue_init\<close>; let \<open>pushed\<close> be the events of the pushes that got a node and
  \<open>out\<close> the events that the pops with a non-zero result delivered. The run ends; the
  queue then holds as many events as \<open>pushed\<close> has less the length of \<open>out\<close>; the
  events of \<open>pushed\<close> are the events of \<open>out\<close> and of the queue together, each as often
  as it was pushed; a drain of at least that many pops delivers exactly the events
  left, in their order, and empties the queue. When the pushes all come before the
  \<open>M\<close> pops and \<open>M\<close> is at most the number of queued events, every pop delivers an
  event, so that \<open>out\<close> has \<open>M\<close> events.
\<close>

theorem push_pop_conservation:
  "\<exists>out q. run_ops ops (event_queue_init q0) ev = Inr (out, q) \<and>
      length out \<le> pops ops \<and>
      length (head q) = length (pushed ops) - length out \<and>
      mset (pushed ops) = mset out + mset (head q) \<and>
      (\<forall>bes m. ops = map (case_prod Push) bes @ replicate m Pop \<and> m \<le> length (allocated bes)
         \<longrightarrow> length out = m) \<and>
      (\<forall>k ev'. length (head q) \<le> k \<longrightarrow>
         (\<exists>q'. run_ops (replicate k Pop) q ev' = Inr (head q, q') \<and> head q' = []))"
proof -
  let ?i = "event_queue_init q0"
  obtain out q where r: "run_ops ops ?i ev = Inr (out, q)"
      and mq: "eventQueue_mutex q = eventQueue_mutex ?i"
      and ms: "mset (head ?i) + mset (pushed ops) = mset out + mset (head q)"
      and lo: "length out \<le> pops ops"
    using run_ops_conserves [of "event_queue_init q0" ops ev] by (auto simp add: init_free)
  from ms have ms': "mset (pushed ops) = mset out + mset (head q)"
    by (simp add: init_free)
  then have "size (mset (pushed ops)) = size (mset out + mset (head q))"
    by simp
  then have len: "length (head q) = length (pushed ops) - length out"
    by simp
  have seq: "\<forall>bes m. ops = map (case_prod Push) bes @ replicate m Pop \<and> m \<le> length (allocated bes)
         \<longrightarrow> length out = m"
  proof (intro allI impI)
    fix bes m
    assume a: "ops = map (case_prod Push) bes @ replicate m Pop \<and> m \<le> length (allocated bes)"
    obtain q1 where q1:
        "run_ops (map (case_prod Push) bes @ replicate m Pop) ?i ev = run_ops (replicate m Pop) q1 ev"
        "head q1 = fold insert_after (allocated bes) []" "eventQueue_mutex q1 = eventQueue_mutex ?i"
      using run_pushes [of "event_queue_init q0" bes "replicate m Pop" ev] by (auto simp add: init_free)
    then have m1: "0 < eventQueue_mutex q1"
      by (simp add: init_free)
    obtain q2 where q2: "run_ops (replicate m Pop) q1 ev = Inr (take m (head q1), q2)"
      using run_pops [of q1 m ev] m1 by auto
    have "length (head q1) = length (allocated bes)"
      using fold_insert_after [of "[]" "allocated bes"] q1(2) by simp
    with a have "length (take m (head q1)) = m"
      by simp
    moreover from a q1(1) q2 r have "out = take m (head q1)"
      by simp
    ultimately show "length out = m"
      by simp
  qed
  have mq': "0 < eventQueue_mutex q"
    using mq by (simp add: init_free)
  have drain: "\<forall>k ev'. length (head q) \<le> k \<longrightarrow>
         (\<exists>q'. run_ops (replicate k Pop) q ev' = Inr (head q, q') \<and> head q' = [])"
  proof (intro allI impI)
    fix k ev'
    assume "length (head q) \<le> k"
    with run_pops [of q k ev'] mq'
    show "\<exists>q'. run_ops (replicate k Pop) q ev' = Inr (head q, q') \<and> head q' = []"
      by auto
  qed
  from r lo len ms' seq drain show ?thesis
    by blast
qed

text \<open>
  A witness: of five pushes four get a node, then three pops leave one event, and
  two more pops deliver it and nothing else.
\<close>

theorem push_pop_conservation_witness:
  "\<exists>out q. run_ops sample_ops (event_queue_init zeroed_queue) (sample_event 0 0) = Inr (out, q) \<and>
      length out = 3 \<and> length (head q) = 1 \<and>
      mset (allocated sample_pushes) = mset out + mset (head q) \<and>
      (\<exists>q'. run_ops (replicate 2 Pop) q (sample_event 0 0) = Inr (head q, q') \<and> head q' = [])"
proof -
  have p: "pushed sample_ops = allocated sample_pushes"
    by (simp add: sample_ops_def sample_pushes_def allocated_def numeral_3_eq_3)
  have f: "sample_ops = map (case_prod Push) sample_pushes @ replicate 3 Pop \<and>
      3 \<le> length (allocated sample_pushes)"
    by (simp add: sample_ops_def sample_pushes_def allocated_def)
  obtain out q where
    r: "run_ops sample_ops (event_queue_init zeroed_queue) (sample_event 0 0) = Inr (out, q)"
    and l: "length (head q) = length (pushed sample_ops) - length out"
    and m: "mset (pushed sample_ops) = mset out + mset (head q)"
    and s: "\<forall>bes m. sample_ops = map (case_prod Push) bes @ replicate m Pop \<and>
               m \<le> length (allocated bes) \<longrightarrow> length out = m"
    and d: "\<forall>k ev'. length (head q) \<le> k \<longrightarrow>
         (\<exists>q'. run_ops (replicate k Pop) q ev' = Inr (head q, q') \<and> head q' = [])"
    using push_pop_conservation [of sample_ops zeroed_queue "sample_event 0 0"] by blast
  from s f have lo: "length out = 3"
    by blast
  with l p have lh: "length (head q) = 1"
    by (simp add: sample_pushes_def allocated_def)
  with d have "\<exists>q'. run_ops (replicate 2 Pop) q (sample_event 0 0) = Inr (head q, q') \<and> head q' = []"
    by simp
  with r lo lh m p show ?thesis
    by auto
qed

end
